theory Spec2Isabelle
  imports Complex_Main "HOL-Library.Word"
begin

section \<open>JavaScript values of the audio utilities\<close>

text \<open>
  The audio utilities compute with JavaScript numbers. A finite number is modelled as an
  exact rational \<open>Num r\<close>: rounding of the binary representation and the sign of zero
  are left out. The values that a division by zero produces are kept, because the
  functions below divide by a chunk size that can be zero: \<open>0 / 0\<close> is \<open>NaN\<close> and
  \<open>x / 0\<close> is an infinity. \<open>Undefined\<close> is what a read beyond the end of an array
  yields; arithmetic converts it to \<open>NaN\<close>.

  Counts and lengths (\<open>barCount\<close>, \<open>array.length\<close>, loop indices) are natural
  numbers; the limits of the host on the size of an array are outside the model.
\<close>

datatype jsval = Num rat | NaN | PosInfinity | NegInfinity | Undefined

fun js_neg :: "jsval \<Rightarrow> jsval" where
  "js_neg (Num a) = Num (- a)"
| "js_neg PosInfinity = NegInfinity"
| "js_neg NegInfinity = PosInfinity"
| "js_neg NaN = NaN"
| "js_neg Undefined = NaN"

fun js_add :: "jsval \<Rightarrow> jsval \<Rightarrow> jsval" where
  "js_add (Num a) (Num b) = Num (a + b)"
| "js_add (Num a) PosInfinity = PosInfinity"
| "js_add (Num a) NegInfinity = NegInfinity"
| "js_add PosInfinity (Num b) = PosInfinity"
| "js_add NegInfinity (Num b) = NegInfinity"
| "js_add PosInfinity PosInfinity = PosInfinity"
| "js_add NegInfinity NegInfinity = NegInfinity"
| "js_add _ _ = NaN"

definition js_sub :: "jsval \<Rightarrow> jsval \<Rightarrow> jsval" where
  "js_sub a b = js_add a (js_neg b)"

fun js_mul :: "jsval \<Rightarrow> jsval \<Rightarrow> jsval" where
  "js_mul (Num a) (Num b) = Num (a * b)"
| "js_mul (Num a) PosInfinity =
     (if a = 0 then NaN else if 0 < a then PosInfinity else NegInfinity)"
| "js_mul (Num a) NegInfinity =
     (if a = 0 then NaN else if 0 < a then NegInfinity else PosInfinity)"
| "js_mul PosInfinity (Num b) =
     (if b = 0 then NaN else if 0 < b then PosInfinity else NegInfinity)"
| "js_mul NegInfinity (Num b) =
     (if b = 0 then NaN else if 0 < b then NegInfinity else PosInfinity)"
| "js_mul PosInfinity PosInfinity = PosInfinity"
| "js_mul PosInfinity NegInfinity = NegInfinity"
| "js_mul NegInfinity PosInfinity = NegInfinity"
| "js_mul NegInfinity NegInfinity = PosInfinity"
| "js_mul _ _ = NaN"

fun js_div :: "jsval \<Rightarrow> jsval \<Rightarrow> jsval" where
  "js_div (Num a) (Num b) =
     (if b = 0 then (if a = 0 then NaN else if 0 < a then PosInfinity else NegInfinity)
      else Num (a / b))"
| "js_div (Num a) PosInfinity = Num 0"
| "js_div (Num a) NegInfinity = Num 0"
| "js_div PosInfinity (Num b) = (if 0 \<le> b then PosInfinity else NegInfinity)"
| "js_div NegInfinity (Num b) = (if 0 \<le> b then NegInfinity else PosInfinity)"
| "js_div _ _ = NaN"

text \<open>
  A \<open>Uint8Array\<close> is a list of bytes. \<open>u8_get a j\<close> is the read \<open>a[j]\<close>: the byte as a
  number, or \<open>undefined\<close> beyond the end.
\<close>

type_synonym uint8array = "8 word list"

definition u8_get :: "uint8array \<Rightarrow> nat \<Rightarrow> jsval" where
  "u8_get a j = (if j < length a then Num (of_nat (unat (a ! j))) else Undefined)"

text \<open>
  An ordinary array of numbers is a list of values. \<open>js_get a i\<close> is the read \<open>a[i]\<close>
  and \<open>js_set a i v\<close> the assignment \<open>a[i] = v\<close>, which lengthens the array when
  \<open>i\<close> is not below its length (the skipped slots read as \<open>undefined\<close>).
\<close>

definition js_get :: "jsval list \<Rightarrow> nat \<Rightarrow> jsval" where
  "js_get a i = (if i < length a then a ! i else Undefined)"

definition js_set :: "jsval list \<Rightarrow> nat \<Rightarrow> jsval \<Rightarrow> jsval list" where
  "js_set a i v =
     (if i < length a then a[i := v]
      else a @ replicate (i - length a) Undefined @ [v])"

section \<open>normalizeFrequencyData\<close>

text \<open>
  The inner loop of \<open>normalizeFrequencyData\<close> (and, with the same text, of the hook's
  \<open>getBarData\<close>):
  \<^verbatim>\<open>for (let j = start; j < end && j < dataArray.length; j++) { sum += dataArray[j]; }\<close>
  The bound \<open>end\<close> is called \<open>stop\<close> and the running \<open>sum\<close> is \<open>acc\<close>.
\<close>

function chunkLoop :: "uint8array \<Rightarrow> nat \<Rightarrow> nat \<Rightarrow> jsval \<Rightarrow> jsval" where
  "chunkLoop dataArray stop j acc =
     (if j < stop \<and> j < length dataArray
      then chunkLoop dataArray stop (j + 1) (js_add acc (u8_get dataArray j))
      else acc)"
  by pat_completeness auto
termination
  by (relation "measure (\<lambda>(dataArray, stop, j, acc). stop - j)") auto

declare chunkLoop.simps [simp del]

text \<open>
  The outer loop over the bars: each round sums one chunk, divides the sum by
  \<open>chunkSize\<close> and then by 255, and pushes the quotient.
\<close>

function barLoop :: "uint8array \<Rightarrow> nat \<Rightarrow> nat \<Rightarrow> nat \<Rightarrow> jsval list \<Rightarrow> jsval list" where
  "barLoop dataArray barCount chunkSize i normalized =
     (if i < barCount
      then (let start = i * chunkSize;
                stop = start + chunkSize;
                total = chunkLoop dataArray stop start (Num 0);
                average = js_div total (Num (of_nat chunkSize))
            in barLoop dataArray barCount chunkSize (i + 1)
                 (normalized @ [js_div average (Num 255)]))
      else normalized)"
  by pat_completeness auto
termination
  by (relation "measure (\<lambda>(dataArray, barCount, chunkSize, i, normalized). barCount - i)") auto

declare barLoop.simps [simp del]

text \<open>
  \<open>normalizeFrequencyData dataArray barCount\<close>. The argument is \<open>None\<close> for a missing
  (\<open>null\<close> or \<open>undefined\<close>) array. \<open>Math.floor(dataArray.length / barCount)\<close> is
  \<open>length dataArray div barCount\<close> for a positive \<open>barCount\<close>; for \<open>barCount = 0\<close> the
  loop body never runs and the chunk size is not used.
\<close>

definition normalizeFrequencyData :: "uint8array option \<Rightarrow> nat \<Rightarrow> jsval list" where
  "normalizeFrequencyData dataArray barCount =
     (case dataArray of
        None \<Rightarrow> replicate barCount (Num 0)
      | Some d \<Rightarrow>
          if length d = 0 then replicate barCount (Num 0)
          else (let chunkSize = length d div barCount
                in barLoop d barCount chunkSize 0 []))"

section \<open>The hook's derived summaries\<close>

text \<open>
  In \<open>useAudioVisualizer\<close> the state \<open>frequencyData\<close> is always a \<open>Uint8Array\<close>
  (initially 128 zero bytes), never \<open>null\<close>. \<open>getBarData\<close> repeats the reduction of
  \<open>normalizeFrequencyData\<close> with \<open>dataPoints\<close> for the chunk size, and pushes
  \<open>sum / dataPoints\<close> as it is.
\<close>

function barDataLoop :: "uint8array \<Rightarrow> nat \<Rightarrow> nat \<Rightarrow> nat \<Rightarrow> jsval list \<Rightarrow> jsval list" where
  "barDataLoop frequencyData barCount dataPoints i bars =
     (if i < barCount
      then (let start = i * dataPoints;
                stop = start + dataPoints;
                total = chunkLoop frequencyData stop start (Num 0)
            in barDataLoop frequencyData barCount dataPoints (i + 1)
                 (bars @ [js_div total (Num (of_nat dataPoints))]))
      else bars)"
  by pat_completeness auto
termination
  by (relation "measure (\<lambda>(frequencyData, barCount, dataPoints, i, bars). barCount - i)") auto

declare barDataLoop.simps [simp del]

definition getBarData :: "uint8array \<Rightarrow> nat \<Rightarrow> jsval list" where
  "getBarData frequencyData barCount =
     (if length frequencyData = 0 then replicate barCount (Num 0)
      else (let dataPoints = length frequencyData div barCount
            in barDataLoop frequencyData barCount dataPoints 0 []))"

text \<open>
  The two levels below take \<open>Math.floor(frequencyData.length * c)\<close> for the literals
  \<open>0.1\<close> and \<open>0.7\<close>. Here the rounding of the binary product decides the result
  (\<open>90 * 0.7\<close> is \<open>62.99999999999999\<close>), so the product is modelled as the host
  computes it. A literal denotes the double \<open>m / 2 ^ k\<close>:
  \<open>0.1\<close> is \<open>3602879701896397 / 2 ^ 55\<close> and \<open>0.7\<close> is \<open>3152519739159347 / 2 ^ 52\<close>.
  For a length \<open>n\<close> (below \<open>2 ^ 53\<close>, so itself a double) the exact product is
  \<open>n * m / 2 ^ k\<close>; the host rounds its numerator to 53 significant bits, ties to
  even (\<open>round53\<close>), and \<open>Math.floor\<close> is then the integer quotient by \<open>2 ^ k\<close>.
\<close>

function bit_length :: "int \<Rightarrow> nat" where
  "bit_length n = (if n \<le> 0 then 0 else Suc (bit_length (n div 2)))"
  by pat_completeness auto
termination
  by (relation "measure nat") auto

declare bit_length.simps [simp del]

definition round53 :: "int \<Rightarrow> int" where
  "round53 n =
     (if bit_length n \<le> 53 then n
      else (let s = bit_length n - 53;
                q = n div 2 ^ s;
                r = n mod 2 ^ s;
                h = 2 ^ (s - 1)
            in (if h < r \<or> (r = h \<and> odd q) then q + 1 else q) * 2 ^ s))"

definition floor_times :: "nat \<Rightarrow> int \<Rightarrow> nat \<Rightarrow> nat" where
  "floor_times n m k = nat (round53 (int n * m) div 2 ^ k)"

text \<open>
  \<open>getBassLevel\<close>: \<open>bassRange = Math.floor(frequencyData.length * 0.1)\<close>, then
  \<^verbatim>\<open>for (let i = 0; i < bassRange; i++) { sum += frequencyData[i]; }\<close>
  and \<open>sum / bassRange\<close>. The loop reads without a test against the length.
\<close>

function bassLoop :: "uint8array \<Rightarrow> nat \<Rightarrow> nat \<Rightarrow> jsval \<Rightarrow> jsval" where
  "bassLoop frequencyData bassRange i acc =
     (if i < bassRange
      then bassLoop frequencyData bassRange (i + 1) (js_add acc (u8_get frequencyData i))
      else acc)"
  by pat_completeness auto
termination
  by (relation "measure (\<lambda>(frequencyData, bassRange, i, acc). bassRange - i)") auto

declare bassLoop.simps [simp del]

definition getBassLevel :: "uint8array \<Rightarrow> jsval" where
  "getBassLevel frequencyData =
     (if length frequencyData = 0 then Num 0
      else (let bassRange = floor_times (length frequencyData) 3602879701896397 55;
                total = bassLoop frequencyData bassRange 0 (Num 0)
            in js_div total (Num (of_nat bassRange))))"

text \<open>
  \<open>getTrebleLevel\<close>: \<open>trebleStart = Math.floor(frequencyData.length * 0.7)\<close>, then
  \<^verbatim>\<open>for (let i = trebleStart; i < frequencyData.length; i++) { sum += frequencyData[i]; count++; }\<close>
  and \<open>count > 0 ? sum / count : 0\<close>.
\<close>

function trebleLoop :: "uint8array \<Rightarrow> nat \<Rightarrow> jsval \<Rightarrow> nat \<Rightarrow> jsval \<times> nat" where
  "trebleLoop frequencyData i acc count =
     (if i < length frequencyData
      then trebleLoop frequencyData (i + 1) (js_add acc (u8_get frequencyData i)) (count + 1)
      else (acc, count))"
  by pat_completeness auto
termination
  by (relation "measure (\<lambda>(frequencyData, i, acc, count). length frequencyData - i)") auto

declare trebleLoop.simps [simp del]

definition getTrebleLevel :: "uint8array \<Rightarrow> jsval" where
  "getTrebleLevel frequencyData =
     (if length frequencyData = 0 then Num 0
      else (let trebleStart = floor_times (length frequencyData) 3152519739159347 52;
                (total, count) = trebleLoop frequencyData trebleStart (Num 0) 0
            in if 0 < count then js_div total (Num (of_nat count)) else Num 0))"

section \<open>smoothArray\<close>

text \<open>
  \<^verbatim>\<open>const smoothed = [array[0]];
  for (let i = 1; i < array.length; i++) {
    smoothed[i] = smoothed[i - 1] * smoothingFactor + array[i] * (1 - smoothingFactor);
  }\<close>
  A missing or empty \<open>array\<close> is returned as it is.
\<close>

function smoothLoop :: "jsval list \<Rightarrow> jsval \<Rightarrow> nat \<Rightarrow> jsval list \<Rightarrow> jsval list" where
  "smoothLoop array smoothingFactor i smoothed =
     (if i < length array
      then smoothLoop array smoothingFactor (i + 1)
             (js_set smoothed i
                (js_add (js_mul (js_get smoothed (i - 1)) smoothingFactor)
                        (js_mul (js_get array i) (js_sub (Num 1) smoothingFactor))))
      else smoothed)"
  by pat_completeness auto
termination
  by (relation "measure (\<lambda>(array, smoothingFactor, i, smoothed). length array - i)") auto

declare smoothLoop.simps [simp del]

definition smoothArray :: "jsval list option \<Rightarrow> jsval \<Rightarrow> jsval list option" where
  "smoothArray array smoothingFactor =
     (case array of
        None \<Rightarrow> None
      | Some a \<Rightarrow>
          if length a = 0 then Some a
          else Some (smoothLoop a smoothingFactor 1 [js_get a 0]))"

section \<open>validateAudioFile\<close>

text \<open>
  A \<open>File\<close> has a name, a declared type and a size (a byte count); the function reads
  \<open>file.type\<close> and \<open>file.size\<close>. The result object has the field \<open>valid\<close> and, on
  rejection, the field \<open>error\<close>.
\<close>

record audio_file =
  file_name :: string
  file_type :: string
  file_size :: nat

record validation =
  valid :: bool
  error :: "string option"

definition validTypes :: "string list" where
  "validTypes = [''audio/mpeg'', ''audio/mp3'', ''audio/wav'', ''audio/ogg'', ''audio/aac'', ''audio/flac'']"

definition maxSize :: nat where
  "maxSize = 100 * 1024 * 1024"

definition validateAudioFile :: "audio_file option \<Rightarrow> validation" where
  "validateAudioFile file =
     (case file of
        None \<Rightarrow> \<lparr>valid = False, error = Some ''No file selected''\<rparr>
      | Some f \<Rightarrow>
          if \<not> List.member validTypes (file_type f)
          then \<lparr>valid = False, error = Some ''Invalid file type. Please select an audio file.''\<rparr>
          else if maxSize < file_size f
          then \<lparr>valid = False, error = Some ''File too large. Maximum size is 100MB.''\<rparr>
          else \<lparr>valid = True, error = None\<rparr>)"

section \<open>clearAudioCache\<close>

text \<open>
  \<open>localStorage\<close> is a list of key/value pairs of strings. \<open>Object.keys\<close> lists its keys,
  \<open>removeItem\<close> deletes a key, \<open>getItem\<close> reads one. \<open>clearLoop\<close> is the \<open>forEach\<close>
  over the listed keys. Nothing in the body fails in this model, so the function returns
  \<open>true\<close> with the new store.
\<close>

type_synonym storage = "(string \<times> string) list"

definition startsWith :: "string \<Rightarrow> string \<Rightarrow> bool" where
  "startsWith s p = (take (length p) s = p)"

definition getItem :: "storage \<Rightarrow> string \<Rightarrow> string option" where
  "getItem st key = map_of st key"

definition removeItem :: "storage \<Rightarrow> string \<Rightarrow> storage" where
  "removeItem st key = filter (\<lambda>(k, v). k \<noteq> key) st"

fun clearLoop :: "string list \<Rightarrow> storage \<Rightarrow> storage" where
  "clearLoop [] st = st"
| "clearLoop (key # keys) st =
     clearLoop keys
       (if startsWith key ''audio_'' \<or> startsWith key ''player_'' then removeItem st key else st)"

definition clearAudioCache :: "storage \<Rightarrow> bool \<times> storage" where
  "clearAudioCache localStorage = (True, clearLoop (map fst localStorage) localStorage)"

section \<open>The upload handler of the player page\<close>

text \<open>
  The page component \<open>MP3Player\<close> keeps the state \<open>isPlaying\<close>, \<open>currentTime\<close>,
  \<open>audioFile\<close> and \<open>audioFileName\<close>. \<open>audioFile\<close> holds the object URL made of the
  chosen file and is the \<open>src\<close> of the audio element, which is rendered when
  \<open>audioFile\<close> is set; the model keeps the file that the URL stands for.
  \<open>playAttempts\<close> records each call \<open>audioRef.current.play()\<close> with the file that
  is the source at that moment. The audio graph and the visualizer, which
  \<open>togglePlay\<close> also starts, do not choose the file and are left out.

  \<^verbatim>\<open>const file = event.target.files[0];
  if (file && file.type.startsWith('audio/')) {
    const url = URL.createObjectURL(file);
    setAudioFile(url); setAudioFileName(file.name); setIsPlaying(false); setCurrentTime(0);
  }\<close>
\<close>

record mp3_player =
  isPlaying :: bool
  currentTime :: rat
  audioFile :: "audio_file option"
  audioFileName :: string
  playAttempts :: "audio_file list"

definition initialPlayer :: mp3_player where
  "initialPlayer =
     \<lparr>isPlaying = False, currentTime = 0, audioFile = None, audioFileName = [],
      playAttempts = []\<rparr>"

definition handleFileUpload :: "mp3_player \<Rightarrow> audio_file option \<Rightarrow> mp3_player" where
  "handleFileUpload p file =
     (case file of
        None \<Rightarrow> p
      | Some f \<Rightarrow>
          if startsWith (file_type f) ''audio/''
          then p\<lparr>audioFile := Some f, audioFileName := file_name f,
                 isPlaying := False, currentTime := 0\<rparr>
          else p)"

definition togglePlay :: "mp3_player \<Rightarrow> mp3_player" where
  "togglePlay p =
     (case audioFile p of
        None \<Rightarrow> p
      | Some f \<Rightarrow>
          if isPlaying p then p\<lparr>isPlaying := False\<rparr>
          else p\<lparr>playAttempts := playAttempts p @ [f], isPlaying := True\<rparr>)"

section \<open>Notions of the specification\<close>

text \<open>The sum of the bytes \<open>s[lo], \<dots>, s[hi - 1]\<close>, and the mean of a sequence.\<close>

definition chunkTotal :: "uint8array \<Rightarrow> nat \<Rightarrow> nat \<Rightarrow> rat" where
  "chunkTotal s lo hi = (\<Sum>j = lo..<hi. of_nat (unat (s ! j)))"

definition mean :: "rat list \<Rightarrow> rat" where
  "mean xs = sum_list xs / of_nat (length xs)"

text \<open>The value pushed in round \<open>i\<close> of \<open>barLoop\<close> and of \<open>barDataLoop\<close>.\<close>

definition bar :: "uint8array \<Rightarrow> nat \<Rightarrow> nat \<Rightarrow> jsval" where
  "bar d chunkSize i =
     js_div (js_div (chunkLoop d (i * chunkSize + chunkSize) (i * chunkSize) (Num 0))
               (Num (of_nat chunkSize))) (Num 255)"

definition rawBar :: "uint8array \<Rightarrow> nat \<Rightarrow> nat \<Rightarrow> jsval" where
  "rawBar d dataPoints i =
     js_div (chunkLoop d (i * dataPoints + dataPoints) (i * dataPoints) (Num 0))
       (Num (of_nat dataPoints))"

text \<open>The keys that \<open>clearAudioCache\<close> selects.\<close>

definition cachePrefix :: "string \<Rightarrow> bool" where
  "cachePrefix key = (startsWith key ''audio_'' \<or> startsWith key ''player_'')"

section \<open>The loops in closed form\<close>

text \<open>
  Started from a finite sum, the inner loop adds the bytes from \<open>j\<close> up to the smaller
  of \<open>stop\<close> and the length of the array.
\<close>

lemma chunkLoop_Num:
  "chunkLoop d stop j (Num a) = Num (a + chunkTotal d j (min stop (length d)))"
proof (induction "min stop (length d) - j" arbitrary: j a)
  case 0
  then have "\<not> (j < stop \<and> j < length d)" by auto
  moreover from 0 have "{j..<min stop (length d)} = {}" by auto
  ultimately show ?case
    by (subst chunkLoop.simps) (simp only: chunkTotal_def if_False sum.empty add_0_right)
next
  case (Suc n)
  then have inr: "j < stop \<and> j < length d" by auto
  from Suc have n: "n = min stop (length d) - (j + 1)" by auto
  have "chunkLoop d stop j (Num a)
          = chunkLoop d stop (j + 1) (Num (a + of_nat (unat (d ! j))))"
    using inr by (subst chunkLoop.simps) (simp add: u8_get_def)
  also have "\<dots> = Num (a + of_nat (unat (d ! j)) + chunkTotal d (j + 1) (min stop (length d)))"
    by (rule Suc.hyps(1) [OF n])
  also have "a + of_nat (unat (d ! j)) + chunkTotal d (j + 1) (min stop (length d))
          = a + chunkTotal d j (min stop (length d))"
    using inr by (simp add: chunkTotal_def sum.atLeast_Suc_lessThan)
  finally show ?case .
qed

text \<open>The outer loop appends one bar for each index from \<open>i\<close> up to \<open>barCount\<close>.\<close>

lemma barLoop_map:
  "barLoop d barCount c i acc = acc @ map (bar d c) [i..<barCount]"
proof (induction "barCount - i" arbitrary: i acc)
  case 0
  then show ?case by (subst barLoop.simps) simp
next
  case (Suc n)
  then have lt: "i < barCount" and n: "n = barCount - (i + 1)" by auto
  have "barLoop d barCount c i acc = barLoop d barCount c (i + 1) (acc @ [bar d c i])"
    using lt by (subst barLoop.simps) (simp add: bar_def Let_def)
  also have "\<dots> = (acc @ [bar d c i]) @ map (bar d c) [i + 1..<barCount]"
    by (rule Suc.hyps(1) [OF n])
  finally show ?case using lt by (simp add: upt_conv_Cons)
qed

text \<open>A byte lies between 0 and 255, so a sum of bytes is bounded by its number of terms.\<close>

lemma u8_le_255: "(unsigned (w :: 8 word) :: rat) \<le> 255"
proof -
  have "unat w \<le> 255"
    using unsigned_less [of w, where ?'a = nat] by simp
  then have "rat_of_nat (unat w) \<le> rat_of_nat 255"
    by (rule of_nat_mono)
  then show ?thesis by simp
qed

lemma u8_nonneg: "(0 :: rat) \<le> unsigned (w :: 8 word)"
proof -
  have "(0 :: rat) \<le> rat_of_nat (unat w)" by (rule of_nat_0_le_iff)
  then show ?thesis by simp
qed

lemma chunkTotal_le: "chunkTotal d lo hi \<le> 255 * of_nat (hi - lo)"
proof -
  have "chunkTotal d lo hi \<le> of_nat (card {lo..<hi}) * 255"
    unfolding chunkTotal_def by (rule sum_bounded_above) (simp add: u8_le_255)
  then show ?thesis by (simp add: mult.commute)
qed

lemma chunkTotal_nonneg: "0 \<le> chunkTotal d lo hi"
  unfolding chunkTotal_def by (rule sum_nonneg) (simp add: u8_nonneg)


lemma bar_Num:
  assumes "c \<noteq> 0"
  shows "bar d c i = Num (chunkTotal d (i * c) (min (i * c + c) (length d)) / of_nat c / 255)"
  using assms by (simp add: bar_def chunkLoop_Num)

lemma bar_zero_chunk: "bar d 0 i = NaN"
  by (simp add: bar_def chunkLoop_Num chunkTotal_def)

lemma normalize_Some:
  "d \<noteq> [] \<Longrightarrow>
   normalizeFrequencyData (Some d) barCount = map (bar d (length d div barCount)) [0..<barCount]"
  by (simp add: normalizeFrequencyData_def barLoop_map)

lemma chunkSize_pos: "0 < barCount \<Longrightarrow> barCount \<le> n \<Longrightarrow> (n::nat) div barCount \<noteq> 0"
  by (simp add: div_greater_zero_iff)

section \<open>Properties of normalizeFrequencyData\<close>

text \<open>
  C1. For a snapshot \<open>s\<close> and \<open>0 < barCount \<le> length s\<close>, with
  \<open>chunkSize = length s div barCount\<close>, the result has \<open>barCount\<close> elements and its
  element \<open>i\<close> is the sum of \<open>s[j]\<close> for \<open>j\<close> from \<open>i * chunkSize\<close> up to the smaller
  of \<open>i * chunkSize + chunkSize\<close> and \<open>length s\<close>, divided by \<open>chunkSize\<close> and then by
  255. The divisor is \<open>chunkSize\<close> whatever the number of summands. For the snapshot
  \<open>[0,64,128,192,255,255,192,128]\<close> and four bars the result is
  \<open>[32/255, 160/255, 255/255, 160/255]\<close>.
\<close>

theorem normalizeFrequencyData_chunk_average:
  "(0 < barCount \<and> barCount \<le> length s \<longrightarrow>
      length (normalizeFrequencyData (Some s) barCount) = barCount \<and>
      (\<forall>i<barCount.
         let chunkSize = length s div barCount in
         normalizeFrequencyData (Some s) barCount ! i =
           Num ((\<Sum>j = i * chunkSize..<min (i * chunkSize + chunkSize) (length s).
                   of_nat (unat (s ! j))) / of_nat chunkSize / 255)))
   \<and> normalizeFrequencyData (Some [0, 64, 128, 192, 255, 255, 192, 128]) 4
       = [Num (32 / 255), Num (160 / 255), Num (255 / 255), Num (160 / 255)]"
proof (intro conjI impI)
  assume h: "0 < barCount \<and> barCount \<le> length s"
  then have ne: "s \<noteq> []" and c: "length s div barCount \<noteq> 0"
    by (auto simp: div_greater_zero_iff)
  show "length (normalizeFrequencyData (Some s) barCount) = barCount"
    using ne by (simp add: normalize_Some)
  show "\<forall>i<barCount.
         let chunkSize = length s div barCount in
         normalizeFrequencyData (Some s) barCount ! i =
           Num ((\<Sum>j = i * chunkSize..<min (i * chunkSize + chunkSize) (length s).
                   of_nat (unat (s ! j))) / of_nat chunkSize / 255)"
    using ne c by (simp add: normalize_Some bar_Num chunkTotal_def Let_def)
next
  show "normalizeFrequencyData (Some [0, 64, 128, 192, 255, 255, 192, 128]) 4
       = [Num (32 / 255), Num (160 / 255), Num (255 / 255), Num (160 / 255)]"
    by code_simp
qed

theorem normalizeFrequencyData_chunk_average_witness:
  "0 < (2::nat) \<and> 2 \<le> length [10, 20, 30, 40, 50 :: 8 word] \<and> (1::nat) < 2 \<and>
   normalizeFrequencyData (Some [10, 20, 30, 40, 50]) 2 ! 1 = Num ((30 + 40) / 2 / 255)"
  using normalizeFrequencyData_chunk_average [of 2 "[10, 20, 30, 40, 50]"]
  by (simp add: Let_def sum.atLeast_Suc_lessThan)

text \<open>
  On this range every chunk lies inside the snapshot, so the bound \<open>j < length\<close> of the
  inner loop never cuts a chunk short; the bins after \<open>barCount * chunkSize\<close> are not
  read.
\<close>

lemma chunk_within_snapshot:
  assumes "i < barCount"
  shows "i * (length s div barCount) + length s div barCount \<le> length s"
proof -
  have "i * (length s div barCount) + length s div barCount = Suc i * (length s div barCount)"
    by simp
  also have "\<dots> \<le> barCount * (length s div barCount)"
    using assms by (intro mult_le_mono1) simp
  also have "\<dots> \<le> length s" by simp
  finally show ?thesis .
qed

text \<open>
  C2. For a non-empty snapshot \<open>s\<close> and \<open>0 < barCount \<le> length s\<close> the result has
  exactly \<open>barCount\<close> elements, and each is a finite number in the closed interval
  from 0 to 1.
\<close>

theorem normalizeFrequencyData_unit_interval:
  "0 < barCount \<and> barCount \<le> length s \<longrightarrow>
     length (normalizeFrequencyData (Some s) barCount) = barCount \<and>
     (\<forall>v \<in> set (normalizeFrequencyData (Some s) barCount). \<exists>r. v = Num r \<and> 0 \<le> r \<and> r \<le> 1)"
proof (intro impI conjI ballI)
  assume h: "0 < barCount \<and> barCount \<le> length s"
  then have ne: "s \<noteq> []" and c: "length s div barCount \<noteq> 0"
    by (auto simp: div_greater_zero_iff)
  show "length (normalizeFrequencyData (Some s) barCount) = barCount"
    using ne by (simp add: normalize_Some)
  fix v assume "v \<in> set (normalizeFrequencyData (Some s) barCount)"
  then obtain i where v: "v = bar s (length s div barCount) i"
    using ne by (auto simp: normalize_Some)
  define c where "c = length s div barCount"
  define S where "S = chunkTotal s (i * c) (min (i * c + c) (length s))"
  have cpos: "0 < (of_nat c :: rat)" using \<open>length s div barCount \<noteq> 0\<close> by (simp add: c_def)
  have "S \<le> 255 * of_nat (min (i * c + c) (length s) - i * c)"
    unfolding S_def by (rule chunkTotal_le)
  also have "\<dots> \<le> 255 * of_nat c"
    by (intro mult_left_mono of_nat_mono) auto
  finally have up: "S \<le> 255 * of_nat c" .
  have lo: "0 \<le> S" unfolding S_def by (rule chunkTotal_nonneg)
  have eq: "v = Num (S / of_nat c / 255)"
    using \<open>length s div barCount \<noteq> 0\<close> by (simp add: v bar_Num S_def c_def)
  have "0 \<le> S / of_nat c / 255" using lo cpos by simp
  moreover have "S / of_nat c / 255 \<le> 1"
    using up cpos by (simp add: field_simps)
  ultimately show "\<exists>r. v = Num r \<and> 0 \<le> r \<and> r \<le> 1" using eq by blast
qed

theorem normalizeFrequencyData_unit_interval_witness:
  "0 < (2::nat) \<and> 2 \<le> length [10, 20, 30, 40, 50 :: 8 word] \<and>
   length (normalizeFrequencyData (Some [10, 20, 30, 40, 50]) 2) = 2 \<and>
   (\<exists>r. normalizeFrequencyData (Some [10, 20, 30, 40, 50]) 2 ! 1 = Num r \<and> 0 \<le> r \<and> r \<le> 1)"
proof -
  let ?bars = "normalizeFrequencyData (Some [10, 20, 30, 40, 50]) 2"
  have h: "0 < (2::nat) \<and> 2 \<le> length [10, 20, 30, 40, 50 :: 8 word]" by simp
  from normalizeFrequencyData_unit_interval [of 2 "[10, 20, 30, 40, 50]"] h
  have len: "length ?bars = 2"
    and all: "\<forall>v \<in> set ?bars. \<exists>r. v = Num r \<and> 0 \<le> r \<and> r \<le> 1"
    by blast+
  from len have "?bars ! 1 \<in> set ?bars" by simp
  with all have "\<exists>r. ?bars ! 1 = Num r \<and> 0 \<le> r \<and> r \<le> 1" by blast
  with h len show ?thesis by blast
qed

text \<open>
  When \<open>barCount\<close> exceeds the length of a non-empty snapshot, \<open>chunkSize\<close> is 0, every
  chunk is empty and every bar is \<open>0 / 0 / 255\<close>.
\<close>

lemma map_const_upt: "(\<And>i. g i = c) \<Longrightarrow> map g [0..<n] = replicate n c"
  by (induction n) (simp_all add: replicate_append_same)

lemma normalize_short_snapshot:
  assumes "d \<noteq> []" and "length d < barCount"
  shows "normalizeFrequencyData (Some d) barCount = replicate barCount NaN"
proof -
  have "map (bar d 0) [0..<barCount] = replicate barCount NaN"
    by (rule map_const_upt) (rule bar_zero_chunk)
  then show ?thesis using assms by (simp add: normalize_Some)
qed

text \<open>
  C3. The property: a non-empty snapshot shorter than \<open>barCount\<close> gives \<open>barCount\<close>
  zeros, and no division by zero is performed. The function has no test of
  \<open>chunkSize\<close>: for the snapshot \<open>[10]\<close> and two bars, \<open>chunkSize\<close> is 0, each bar
  is the quotient \<open>0 / 0\<close> divided by 255, and the result is \<open>[NaN, NaN]\<close>.
\<close>

theorem normalizeFrequencyData_short_snapshot_NaN:
  "normalizeFrequencyData (Some [10]) 2 = [NaN, NaN]"
  by code_simp

text \<open>
  C4. A missing snapshot and an empty snapshot both give \<open>barCount\<close> zeros, for every
  \<open>barCount\<close>. The function has no failing step on this path: the test
  \<open>!dataArray\<close> comes before the read of \<open>dataArray.length\<close>.
\<close>

theorem normalizeFrequencyData_no_snapshot:
  "normalizeFrequencyData None barCount = replicate barCount (Num 0) \<and>
   normalizeFrequencyData (Some []) barCount = replicate barCount (Num 0)"
  by (simp add: normalizeFrequencyData_def)

text \<open>
  An all-zero snapshot gives all-zero bars when \<open>barCount\<close> is positive and at most the
  length of the snapshot.
\<close>

lemma chunkTotal_zero:
  assumes "\<forall>w \<in> set s. w = 0" and "hi \<le> length s"
  shows "chunkTotal s lo hi = 0"
proof -
  have "(of_nat (unat (s ! j)) :: rat) = 0" if "j \<in> {lo..<hi}" for j
  proof -
    from that assms(2) have "s ! j \<in> set s" by simp
    with assms(1) have "s ! j = 0" by blast
    then show ?thesis by simp
  qed
  then show ?thesis unfolding chunkTotal_def by (rule sum.neutral [OF ballI])
qed

lemma normalize_zero_snapshot_in_range:
  assumes "\<forall>w \<in> set s. w = 0" and "0 < barCount" and "barCount \<le> length s"
  shows "normalizeFrequencyData (Some s) barCount = replicate barCount (Num 0)"
proof -
  from assms have ne: "s \<noteq> []" and c: "length s div barCount \<noteq> 0"
    by (auto simp: div_greater_zero_iff)
  have "bar s (length s div barCount) i = Num 0" for i
    using c assms(1) by (simp add: bar_Num chunkTotal_zero)
  then have "map (bar s (length s div barCount)) [0..<barCount] = replicate barCount (Num 0)"
    by (rule map_const_upt)
  then show ?thesis using ne by (simp add: normalize_Some)
qed

text \<open>
  C5. The property: an all-zero snapshot of any length gives \<open>barCount\<close> zeros. For the
  all-zero snapshot \<open>[0]\<close> and two bars, \<open>chunkSize\<close> is 0 and the result is
  \<open>[NaN, NaN]\<close>.
\<close>

theorem normalizeFrequencyData_zero_snapshot_NaN:
  "normalizeFrequencyData (Some [0]) 2 = [NaN, NaN]"
  by code_simp

section \<open>Properties of getBarData\<close>

lemma barDataLoop_map:
  "barDataLoop d barCount c i acc = acc @ map (rawBar d c) [i..<barCount]"
proof (induction "barCount - i" arbitrary: i acc)
  case 0
  then show ?case by (subst barDataLoop.simps) simp
next
  case (Suc n)
  then have lt: "i < barCount" and n: "n = barCount - (i + 1)" by auto
  have "barDataLoop d barCount c i acc = barDataLoop d barCount c (i + 1) (acc @ [rawBar d c i])"
    using lt by (subst barDataLoop.simps) (simp add: rawBar_def Let_def)
  also have "\<dots> = (acc @ [rawBar d c i]) @ map (rawBar d c) [i + 1..<barCount]"
    by (rule Suc.hyps(1) [OF n])
  finally show ?case using lt by (simp add: upt_conv_Cons)
qed

lemma rawBar_Num:
  assumes "c \<noteq> 0"
  shows "rawBar d c i = Num (chunkTotal d (i * c) (min (i * c + c) (length d)) / of_nat c)"
  using assms by (simp add: rawBar_def chunkLoop_Num)

lemma getBarData_map:
  "f \<noteq> [] \<Longrightarrow> getBarData f barCount = map (rawBar f (length f div barCount)) [0..<barCount]"
  by (simp add: getBarData_def barDataLoop_map)

lemma chunk_average_bounds:
  assumes "c \<noteq> 0"
  shows "0 \<le> chunkTotal d (i * c) (min (i * c + c) (length d)) / of_nat c"
    and "chunkTotal d (i * c) (min (i * c + c) (length d)) / of_nat c \<le> 255"
proof -
  let ?S = "chunkTotal d (i * c) (min (i * c + c) (length d))"
  have cpos: "0 < (of_nat c :: rat)" using assms by simp
  have "?S \<le> 255 * of_nat (min (i * c + c) (length d) - i * c)"
    by (rule chunkTotal_le)
  also have "\<dots> \<le> 255 * of_nat c"
    by (intro mult_left_mono of_nat_mono) auto
  finally have up: "?S \<le> 255 * of_nat c" .
  show "0 \<le> ?S / of_nat c" using chunkTotal_nonneg [of d] cpos by simp
  show "?S / of_nat c \<le> 255" using up cpos by (simp add: field_simps)
qed

text \<open>
  C10. For a non-empty \<open>frequencyData\<close> \<open>f\<close> and \<open>0 < barCount \<le> length f\<close>,
  \<open>getBarData\<close> returns \<open>barCount\<close> elements; element \<open>i\<close> is the sum of the bytes of
  chunk \<open>i\<close> divided by \<open>dataPoints = length f div barCount\<close>, with no division by
  255, and lies between 0 and 255. The bound 255 is reached: \<open>[255, 255]\<close> with one
  bar gives \<open>[255]\<close>.
\<close>

theorem getBarData_raw_average:
  "(0 < barCount \<and> barCount \<le> length f \<longrightarrow>
      length (getBarData f barCount) = barCount \<and>
      (\<forall>i<barCount.
         let dataPoints = length f div barCount;
             average = (\<Sum>j = i * dataPoints..<min (i * dataPoints + dataPoints) (length f).
                          of_nat (unat (f ! j))) / of_nat dataPoints
         in getBarData f barCount ! i = Num average \<and> 0 \<le> average \<and> average \<le> 255))
   \<and> getBarData [255, 255] 1 = [Num 255]"
proof (intro conjI impI)
  assume h: "0 < barCount \<and> barCount \<le> length f"
  then have ne: "f \<noteq> []" and c: "length f div barCount \<noteq> 0"
    by (auto simp: div_greater_zero_iff)
  show "length (getBarData f barCount) = barCount"
    using ne by (simp add: getBarData_map)
  show "\<forall>i<barCount.
         let dataPoints = length f div barCount;
             average = (\<Sum>j = i * dataPoints..<min (i * dataPoints + dataPoints) (length f).
                          of_nat (unat (f ! j))) / of_nat dataPoints
         in getBarData f barCount ! i = Num average \<and> 0 \<le> average \<and> average \<le> 255"
    using ne c chunk_average_bounds [OF c, of f]
    by (simp add: getBarData_map rawBar_Num chunkTotal_def Let_def)
next
  show "getBarData [255, 255] 1 = [Num 255]"
    by code_simp
qed

theorem getBarData_raw_average_witness:
  "0 < (2::nat) \<and> 2 \<le> length [10, 20, 30, 40, 50 :: 8 word] \<and> (1::nat) < 2 \<and>
   getBarData [10, 20, 30, 40, 50] 2 ! 1 = Num 35"
  using getBarData_raw_average [of 2 "[10, 20, 30, 40, 50]"]
  by (simp add: Let_def sum.atLeast_Suc_lessThan)


section \<open>Properties of the bass and treble levels\<close>

lemma bassLoop_Num:
  "bassRange \<le> length f \<Longrightarrow>
   bassLoop f bassRange i (Num a) =
     Num (a + sum_list (map (\<lambda>w. of_nat (unat w)) (take (bassRange - i) (drop i f))))"
proof (induction "bassRange - i" arbitrary: i a)
  case 0
  then show ?case by (subst bassLoop.simps) simp
next
  case (Suc n)
  then have lt: "i < bassRange" and inr: "i < length f" and n: "n = bassRange - (i + 1)"
    by auto
  have d: "drop i f = f ! i # drop (i + 1) f"
    using inr by (simp add: Cons_nth_drop_Suc)
  have t: "bassRange - i = Suc (bassRange - (i + 1))" using lt by simp
  have "bassLoop f bassRange i (Num a)
          = bassLoop f bassRange (i + 1) (Num (a + of_nat (unat (f ! i))))"
    using lt inr by (subst bassLoop.simps) (simp add: u8_get_def)
  also have "\<dots> = Num (a + of_nat (unat (f ! i))
       + sum_list (map (\<lambda>w. of_nat (unat w)) (take (bassRange - (i + 1)) (drop (i + 1) f))))"
    by (rule Suc.hyps(1) [OF n Suc.prems])
  finally show ?case by (simp only: d t take_Suc_Cons list.map sum_list.Cons add.assoc)
qed

lemma trebleLoop_Num:
  "trebleLoop f i (Num a) count =
     (Num (a + sum_list (map (\<lambda>w. of_nat (unat w)) (drop i f))), count + (length f - i))"
proof (induction "length f - i" arbitrary: i a count)
  case 0
  then show ?case by (subst trebleLoop.simps) simp
next
  case (Suc n)
  then have inr: "i < length f" and n: "n = length f - (i + 1)" by auto
  have d: "drop i f = f ! i # drop (i + 1) f"
    using inr by (simp add: Cons_nth_drop_Suc)
  have c: "count + (length f - i) = count + 1 + (length f - (i + 1))" using inr by simp
  have "trebleLoop f i (Num a) count
          = trebleLoop f (i + 1) (Num (a + of_nat (unat (f ! i)))) (count + 1)"
    using inr by (subst trebleLoop.simps) (simp add: u8_get_def)
  also have "\<dots> = (Num (a + of_nat (unat (f ! i))
       + sum_list (map (\<lambda>w. of_nat (unat w)) (drop (i + 1) f))), count + 1 + (length f - (i + 1)))"
    by (rule Suc.hyps(1) [OF n])
  finally show ?case by (simp only: d c list.map sum_list.Cons add.assoc)
qed

text \<open>
  At the length 100 the rounded products are 10 and 70. At the length 90 the rounded
  product \<open>90 * 0.7\<close> lies below 63, and the treble range starts at 62.
\<close>

lemma bass_range_100: "floor_times 100 3602879701896397 55 = 10"
  by code_simp

lemma treble_start_100: "floor_times 100 3152519739159347 52 = 70"
  by code_simp

lemma treble_start_90: "floor_times 90 3152519739159347 52 = 62"
  by code_simp

text \<open>
  C7. For a snapshot \<open>s\<close> of length 100, \<open>getBassLevel\<close> is the mean of the first 10
  bins \<open>s[0..10)\<close> and \<open>getTrebleLevel\<close> is the mean of the 30 bins \<open>s[70..100)\<close>; for
  the empty snapshot both are 0.
\<close>

theorem bass_treble_levels:
  "(length s = 100 \<longrightarrow>
      getBassLevel s = Num (mean (map (\<lambda>w. of_nat (unat w)) (take 10 s))) \<and>
      getTrebleLevel s = Num (mean (map (\<lambda>w. of_nat (unat w)) (drop 70 s))))
   \<and> getBassLevel [] = Num 0 \<and> getTrebleLevel [] = Num 0"
proof (intro conjI impI)
  assume len: "length s = 100"
  show "getBassLevel s = Num (mean (map (\<lambda>w. of_nat (unat w)) (take 10 s)))"
    using len by (simp add: getBassLevel_def bass_range_100 bassLoop_Num mean_def)
  show "getTrebleLevel s = Num (mean (map (\<lambda>w. of_nat (unat w)) (drop 70 s)))"
    using len by (simp add: getTrebleLevel_def treble_start_100 trebleLoop_Num mean_def)
next
  show "getBassLevel [] = Num 0" by (simp add: getBassLevel_def)
  show "getTrebleLevel [] = Num 0" by (simp add: getTrebleLevel_def)
qed

theorem bass_treble_levels_witness:
  "length (replicate 10 20 @ replicate 60 0 @ replicate 30 (200 :: 8 word)) = 100 \<and>
   getBassLevel (replicate 10 20 @ replicate 60 0 @ replicate 30 200) = Num 20 \<and>
   getTrebleLevel (replicate 10 20 @ replicate 60 0 @ replicate 30 200) = Num 200"
  using bass_treble_levels [of "replicate 10 20 @ replicate 60 0 @ replicate 30 200"]
  by (simp add: mean_def sum_list_replicate)

section \<open>Properties of smoothArray\<close>

text \<open>
  On an array of finite numbers with a finite factor \<open>k\<close>, the loop keeps \<open>smoothed\<close>
  an array of finite numbers of length \<open>i\<close>, and each element written obeys the
  recurrence.
\<close>

lemma smoothLoop_inv:
  assumes "length sm = i" and "1 \<le> i" and "i \<le> length raw"
  shows "\<exists>sm'. smoothLoop (map Num raw) (Num k) i (map Num sm) = map Num sm' \<and>
           length sm' = length raw \<and> take i sm' = sm \<and>
           (\<forall>j. i \<le> j \<and> j < length raw \<longrightarrow> sm' ! j = sm' ! (j - 1) * k + raw ! j * (1 - k))"
  using assms
proof (induction "length raw - i" arbitrary: i sm)
  case 0
  then have "smoothLoop (map Num raw) (Num k) i (map Num sm) = map Num sm"
    by (subst smoothLoop.simps) simp
  with 0 show ?case by auto
next
  case (Suc n)
  then have lt: "i < length raw" and n: "n = length raw - (i + 1)" by auto
  define v where "v = sm ! (i - 1) * k + raw ! i * (1 - k)"
  have prev: "js_get (map Num sm) (i - 1) = Num (sm ! (i - 1))"
    using Suc.prems by (simp add: js_get_def)
  have cur: "js_get (map Num raw) i = Num (raw ! i)"
    using lt by (simp add: js_get_def)
  have set: "js_set (map Num sm) i (Num v) = map Num (sm @ [v])"
    using Suc.prems by (simp add: js_set_def)
  have val: "js_add (js_mul (js_get (map Num sm) (i - 1)) (Num k))
                    (js_mul (js_get (map Num raw) i) (js_sub (Num 1) (Num k))) = Num v"
    unfolding prev cur by (simp add: js_sub_def v_def)
  have "smoothLoop (map Num raw) (Num k) i (map Num sm)
          = smoothLoop (map Num raw) (Num k) (i + 1)
              (js_set (map Num sm) i
                 (js_add (js_mul (js_get (map Num sm) (i - 1)) (Num k))
                         (js_mul (js_get (map Num raw) i) (js_sub (Num 1) (Num k)))))"
    using lt by (subst smoothLoop.simps) (simp only: length_map if_True)
  then have step: "smoothLoop (map Num raw) (Num k) i (map Num sm)
          = smoothLoop (map Num raw) (Num k) (i + 1) (map Num (sm @ [v]))"
    by (simp only: val set)
  have "length (sm @ [v]) = i + 1" "1 \<le> i + 1" "i + 1 \<le> length raw"
    using Suc.prems lt by simp_all
  from Suc.hyps(1) [OF n this] obtain sm' where
    run: "smoothLoop (map Num raw) (Num k) (i + 1) (map Num (sm @ [v])) = map Num sm'"
    and len: "length sm' = length raw"
    and tk: "take (i + 1) sm' = sm @ [v]"
    and rec: "\<forall>j. i + 1 \<le> j \<and> j < length raw \<longrightarrow> sm' ! j = sm' ! (j - 1) * k + raw ! j * (1 - k)"
    by blast
  have tki: "take i sm' = sm"
  proof -
    have "take i sm' = take i (take (i + 1) sm')" by (simp add: min_def)
    also have "\<dots> = take i (sm @ [v])" by (simp only: tk)
    also have "\<dots> = sm" using Suc.prems(1) by simp
    finally show ?thesis .
  qed
  have at_i: "sm' ! i = v"
  proof -
    have "sm' ! i = take (i + 1) sm' ! i" by simp
    also have "\<dots> = (sm @ [v]) ! i" by (simp only: tk)
    also have "\<dots> = v" using Suc.prems(1) by (simp add: nth_append)
    finally show ?thesis .
  qed
  have at_p: "sm' ! (i - 1) = sm ! (i - 1)"
  proof -
    have "i - 1 < i" using Suc.prems(2) by simp
    then have "sm' ! (i - 1) = take i sm' ! (i - 1)" by simp
    then show ?thesis by (simp add: tki)
  qed
  have "\<forall>j. i \<le> j \<and> j < length raw \<longrightarrow> sm' ! j = sm' ! (j - 1) * k + raw ! j * (1 - k)"
  proof (intro allI impI)
    fix j assume j: "i \<le> j \<and> j < length raw"
    show "sm' ! j = sm' ! (j - 1) * k + raw ! j * (1 - k)"
    proof (cases "j = i")
      case True
      then show ?thesis by (simp only: at_i at_p v_def)
    next
      case False
      with j have "i + 1 \<le> j \<and> j < length raw" by simp
      with rec show ?thesis by blast
    qed
  qed
  with step run len tki show ?case by auto
qed

lemma smoothArray_run:
  assumes "raw \<noteq> []"
  shows "\<exists>sm. smoothArray (Some (map Num raw)) (Num k) = Some (map Num sm) \<and>
           length sm = length raw \<and> sm ! 0 = raw ! 0 \<and>
           (\<forall>i. 1 \<le> i \<and> i < length raw \<longrightarrow> sm ! i = sm ! (i - 1) * k + raw ! i * (1 - k))"
proof -
  have first: "[js_get (map Num raw) 0] = map Num [raw ! 0]"
    using assms by (simp add: js_get_def)
  have "length [raw ! 0] = 1" "(1::nat) \<le> 1" "1 \<le> length raw"
    using assms by (simp_all add: Suc_le_eq)
  from smoothLoop_inv [OF this, of k] obtain sm where
    run: "smoothLoop (map Num raw) (Num k) 1 (map Num [raw ! 0]) = map Num sm"
    and len: "length sm = length raw"
    and tk: "take 1 sm = [raw ! 0]"
    and rec: "\<forall>j. 1 \<le> j \<and> j < length raw \<longrightarrow> sm ! j = sm ! (j - 1) * k + raw ! j * (1 - k)"
    by blast
  have "take 1 sm ! 0 = sm ! 0" by simp
  then have z: "sm ! 0 = raw ! 0" by (simp only: tk nth_Cons_0)
  have "smoothArray (Some (map Num raw)) (Num k)
          = Some (smoothLoop (map Num raw) (Num k) 1 [js_get (map Num raw) 0])"
    using assms by (simp add: smoothArray_def)
  then have "smoothArray (Some (map Num raw)) (Num k) = Some (map Num sm)"
    by (simp only: first run)
  with len z rec show ?thesis by blast
qed


text \<open>
  C6. For a non-empty array \<open>raw\<close> of numbers and a factor \<open>k\<close>, the result
  \<open>smoothed\<close> has the length of \<open>raw\<close>, \<open>smoothed[0] = raw[0]\<close> and
  \<open>smoothed[i] = smoothed[i-1] * k + raw[i] * (1 - k)\<close> for \<open>i \<ge> 1\<close>. For \<open>k = 0\<close>
  the result is \<open>raw\<close>; for \<open>k = 1\<close> every element is \<open>raw[0]\<close>. The numbers are
  the finite ones: an infinity times 0 is \<open>NaN\<close>, so an infinite entry is not kept by
  \<open>k = 0\<close>.
\<close>

theorem smoothArray_recurrence:
  "raw \<noteq> [] \<longrightarrow>
     (\<exists>smoothed. smoothArray (Some (map Num raw)) (Num k) = Some (map Num smoothed) \<and>
        length smoothed = length raw \<and> smoothed ! 0 = raw ! 0 \<and>
        (\<forall>i. 1 \<le> i \<and> i < length raw \<longrightarrow>
           smoothed ! i = smoothed ! (i - 1) * k + raw ! i * (1 - k))) \<and>
     smoothArray (Some (map Num raw)) (Num 0) = Some (map Num raw) \<and>
     smoothArray (Some (map Num raw)) (Num 1) = Some (map Num (replicate (length raw) (raw ! 0)))"
proof (intro impI conjI)
  assume ne: "raw \<noteq> []"
  show "\<exists>smoothed. smoothArray (Some (map Num raw)) (Num k) = Some (map Num smoothed) \<and>
        length smoothed = length raw \<and> smoothed ! 0 = raw ! 0 \<and>
        (\<forall>i. 1 \<le> i \<and> i < length raw \<longrightarrow>
           smoothed ! i = smoothed ! (i - 1) * k + raw ! i * (1 - k))"
    by (rule smoothArray_run [OF ne])
  show "smoothArray (Some (map Num raw)) (Num 0) = Some (map Num raw)"
  proof -
    from smoothArray_run [OF ne, of 0] obtain sm where
      run: "smoothArray (Some (map Num raw)) (Num 0) = Some (map Num sm)"
      and len: "length sm = length raw" and z: "sm ! 0 = raw ! 0"
      and rec: "\<forall>i. 1 \<le> i \<and> i < length raw \<longrightarrow> sm ! i = sm ! (i - 1) * 0 + raw ! i * (1 - 0)"
      by blast
    have "sm ! i = raw ! i" if "i < length sm" for i
    proof (cases "i = 0")
      case True
      then show ?thesis by (simp add: z)
    next
      case False
      with that len have "1 \<le> i \<and> i < length raw" by simp
      with rec have "sm ! i = sm ! (i - 1) * 0 + raw ! i * (1 - 0)" by blast
      then show ?thesis by simp
    qed
    with len have "sm = raw" by (simp add: list_eq_iff_nth_eq)
    with run show ?thesis by simp
  qed
  show "smoothArray (Some (map Num raw)) (Num 1) = Some (map Num (replicate (length raw) (raw ! 0)))"
  proof -
    from smoothArray_run [OF ne, of 1] obtain sm where
      run: "smoothArray (Some (map Num raw)) (Num 1) = Some (map Num sm)"
      and len: "length sm = length raw" and z: "sm ! 0 = raw ! 0"
      and rec: "\<forall>i. 1 \<le> i \<and> i < length raw \<longrightarrow> sm ! i = sm ! (i - 1) * 1 + raw ! i * (1 - 1)"
      by blast
    have "i < length raw \<Longrightarrow> sm ! i = raw ! 0" for i
    proof (induction i)
      case 0
      show ?case by (rule z)
    next
      case (Suc i)
      then have "1 \<le> Suc i \<and> Suc i < length raw" by simp
      with rec have "sm ! Suc i = sm ! (Suc i - 1) * 1 + raw ! Suc i * (1 - 1)" by blast
      with Suc show ?case by simp
    qed
    with len have "sm = replicate (length raw) (raw ! 0)" by (simp add: list_eq_iff_nth_eq)
    with run show ?thesis by simp
  qed
qed

theorem smoothArray_recurrence_witness:
  "[1, 2 :: rat] \<noteq> [] \<and>
   smoothArray (Some [Num 1, Num 2]) (Num (1 / 2)) = Some [Num 1, Num (3 / 2)] \<and>
   smoothArray (Some [Num 1, Num 2]) (Num 0) = Some [Num 1, Num 2] \<and>
   smoothArray (Some [Num 1, Num 2]) (Num 1) = Some [Num 1, Num 1]"
proof -
  have ne: "[1, 2 :: rat] \<noteq> []" by simp
  from smoothArray_recurrence [of "[1, 2]" "1 / 2"] ne obtain sm where
    run: "smoothArray (Some (map Num [1, 2])) (Num (1 / 2)) = Some (map Num sm)"
    and len: "length sm = length [1, 2 :: rat]" and z: "sm ! 0 = [1, 2] ! 0"
    and rec: "\<forall>i. 1 \<le> i \<and> i < length [1, 2 :: rat] \<longrightarrow>
                sm ! i = sm ! (i - 1) * (1 / 2) + [1, 2] ! i * (1 - 1 / 2)"
    and k0: "smoothArray (Some (map Num [1, 2])) (Num 0) = Some (map Num [1, 2])"
    and k1: "smoothArray (Some (map Num [1, 2])) (Num 1)
               = Some (map Num (replicate (length [1, 2 :: rat]) ([1, 2] ! 0)))"
    by blast
  have "1 \<le> (1::nat) \<and> 1 < length [1, 2 :: rat]" by simp
  with rec have "sm ! 1 = sm ! (1 - 1) * (1 / 2) + [1, 2] ! 1 * (1 - 1 / 2)" by blast
  with z have o: "sm ! 1 = 3 / 2" by simp
  from z have z': "sm ! 0 = 1" by simp
  from len have "sm = [sm ! 0, sm ! 1]"
    by (auto simp: list_eq_iff_nth_eq less_Suc_eq numeral_2_eq_2)
  also have "\<dots> = [1, 3 / 2]" by (simp only: z' o)
  finally have "sm = [1, 3 / 2]" .
  with run k0 k1 show ?thesis by (simp add: numeral_2_eq_2)
qed

section \<open>Properties of validateAudioFile\<close>

lemma set_validTypes:
  "set validTypes =
     {''audio/mpeg'', ''audio/mp3'', ''audio/wav'', ''audio/ogg'', ''audio/aac'', ''audio/flac''}"
  by (simp add: validTypes_def)

text \<open>
  C8, as amended. \<open>validateAudioFile\<close> answers \<open>valid: false\<close>, with an error message,
  exactly when the file is absent, or its declared type is none of audio/mpeg,
  audio/mp3, audio/wav, audio/ogg, audio/aac, audio/flac, or its size exceeds
  100 * 1024 * 1024 bytes; otherwise it answers \<open>{ valid: true }\<close>. The upload handler
  of the player page does not ask it: the handler makes a chosen file the source of the
  player exactly when the declared type of the file starts with \<open>audio/\<close>.
\<close>

theorem validateAudioFile_rejects:
  "(\<not> valid (validateAudioFile f) \<longleftrightarrow>
      f = None \<or>
      (\<exists>x. f = Some x \<and>
         (file_type x \<notin> {''audio/mpeg'', ''audio/mp3'', ''audio/wav'',
                            ''audio/ogg'', ''audio/aac'', ''audio/flac''} \<or>
          100 * 1024 * 1024 < file_size x))) \<and>
   (\<not> valid (validateAudioFile f) \<longrightarrow> error (validateAudioFile f) \<noteq> None) \<and>
   (valid (validateAudioFile f) \<longrightarrow> validateAudioFile f = \<lparr>valid = True, error = None\<rparr>) \<and>
   audioFile (handleFileUpload p f) =
     (case f of
        None \<Rightarrow> audioFile p
      | Some x \<Rightarrow> if startsWith (file_type x) ''audio/'' then Some x else audioFile p)"
proof (cases f)
  case None
  then show ?thesis by (simp add: validateAudioFile_def handleFileUpload_def)
next
  case (Some x)
  then show ?thesis
    by (simp add: validateAudioFile_def set_validTypes maxSize_def handleFileUpload_def)
qed

theorem validateAudioFile_rejects_witness:
  "validateAudioFile
     (Some \<lparr>file_name = ''a.mp3'', file_type = ''audio/mp3'', file_size = 5000000\<rparr>)
     = \<lparr>valid = True, error = None\<rparr> \<and>
   \<not> valid (validateAudioFile
     (Some \<lparr>file_name = ''b.mp3'', file_type = ''audio/mp3'', file_size = 104857601\<rparr>)) \<and>
   error (validateAudioFile
     (Some \<lparr>file_name = ''b.mp3'', file_type = ''audio/mp3'', file_size = 104857601\<rparr>))
     \<noteq> None \<and>
   audioFile (handleFileUpload initialPlayer
     (Some \<lparr>file_name = ''b.mp3'', file_type = ''audio/mp3'', file_size = 104857601\<rparr>))
     = Some \<lparr>file_name = ''b.mp3'', file_type = ''audio/mp3'', file_size = 104857601\<rparr>"
  using validateAudioFile_rejects
      [of "Some \<lparr>file_name = ''a.mp3'', file_type = ''audio/mp3'', file_size = 5000000\<rparr>"
          initialPlayer]
    validateAudioFile_rejects
      [of "Some \<lparr>file_name = ''b.mp3'', file_type = ''audio/mp3'', file_size = 104857601\<rparr>"
          initialPlayer]
  by (simp add: startsWith_def)

text \<open>
  C8, as first stated, adds that the rejection is decided before any playback attempt.
  The file \<open>song.m4a\<close> of the declared type \<open>audio/x-m4a\<close> is one that
  \<open>validateAudioFile\<close> rejects; chosen in the player page and started with
  \<open>togglePlay\<close>, it is played, and no rejection was decided.
\<close>

theorem validateAudioFile_bypassed_counterexample:
  "\<not> valid (validateAudioFile
      (Some \<lparr>file_name = ''song.m4a'', file_type = ''audio/x-m4a'', file_size = 1000\<rparr>)) \<and>
   playAttempts (togglePlay (handleFileUpload initialPlayer
      (Some \<lparr>file_name = ''song.m4a'', file_type = ''audio/x-m4a'', file_size = 1000\<rparr>)))
     = [\<lparr>file_name = ''song.m4a'', file_type = ''audio/x-m4a'', file_size = 1000\<rparr>]"
  by (simp add: validateAudioFile_def validTypes_def handleFileUpload_def togglePlay_def
      initialPlayer_def startsWith_def)

section \<open>Properties of clearAudioCache\<close>

text \<open>The loop removes the selected keys among those listed, and keeps the order of the rest.\<close>

lemma clearLoop_filter:
  "clearLoop keys st = filter (\<lambda>(k, v). \<not> (k \<in> set keys \<and> cachePrefix k)) st"
proof (induction keys arbitrary: st)
  case Nil
  show ?case by simp
next
  case (Cons key keys)
  show ?case
    by (auto simp: Cons.IH removeItem_def cachePrefix_def intro!: filter_cong)
qed

lemma clearAudioCache_filter:
  "snd (clearAudioCache st) = filter (\<lambda>(k, v). \<not> cachePrefix k) st"
proof -
  have "filter (\<lambda>(k, v). \<not> (k \<in> set (map fst st) \<and> cachePrefix k)) st
          = filter (\<lambda>(k, v). \<not> cachePrefix k) st"
    by (rule filter_cong [OF refl]) force
  then show ?thesis by (simp add: clearAudioCache_def clearLoop_filter)
qed

lemma map_of_filter_key:
  "map_of (filter (\<lambda>(k, v). P k) st) key = (if P key then map_of st key else None)"
  by (induction st) auto

text \<open>
  C9. For every store, \<open>clearAudioCache\<close> returns \<open>true\<close>; afterwards every key that
  starts with \<open>audio_\<close> or \<open>player_\<close> is absent, and every other key reads the value
  it had before.
\<close>

theorem clearAudioCache_frame:
  "fst (clearAudioCache st) = True \<and>
   (\<forall>key. getItem (snd (clearAudioCache st)) key =
      (if startsWith key ''audio_'' \<or> startsWith key ''player_'' then None else getItem st key))"
  by (simp add: clearAudioCache_filter getItem_def map_of_filter_key cachePrefix_def)
    (simp add: clearAudioCache_def)

theorem clearAudioCache_frame_witness:
  "getItem (snd (clearAudioCache
      [(''audio_volume'', ''0.5''), (''theme'', ''dark''), (''player_list'', ''[]'')])) ''theme''
     = Some ''dark'' \<and>
   getItem (snd (clearAudioCache
      [(''audio_volume'', ''0.5''), (''theme'', ''dark''), (''player_list'', ''[]'')])) ''audio_volume''
     = None \<and>
   getItem (snd (clearAudioCache
      [(''audio_volume'', ''0.5''), (''theme'', ''dark''), (''player_list'', ''[]'')])) ''player_list''
     = None"
  using clearAudioCache_frame
    [of "[(''audio_volume'', ''0.5''), (''theme'', ''dark''), (''player_list'', ''[]'')]"]
  by (simp add: getItem_def startsWith_def)


end
